theory Spec2Isabelle
  imports Main
begin

section \<open>Decoded responses and the Python operations applied to them\<close>

text \<open>
  The client \<^verbatim>\<open>fb_ads_library_api.py\<close> never looks at raw response text itself: every
  page is the value returned by \<^verbatim>\<open>json.loads\<close>.  Such a value is a \<open>json\<close> term.
  A JSON object is the list of its items in insertion order, with pairwise different keys
  (what a Python \<^verbatim>\<open>dict\<close> holds).  Numbers are never inspected by the client; they are
  kept as integers.  A \<open>string\<close> is read as a sequence of code points below 256.
\<close>

datatype json =
    JNull
  | JBool bool
  | JNum int
  | JStr string
  | JArr "json list"
  | JObj "(string \<times> json) list"

text \<open>
  Every exception the code can raise is a value.  \<open>Exception\<close> carries the message of the
  plain \<^verbatim>\<open>Exception\<close> raised at lines 101-105; \<open>AttributeError\<close> is what
  \<^verbatim>\<open>None.group(1)\<close> raises at line 20.  \<open>RequestError\<close> and \<open>DecodeError\<close> stand for whatever
  \<^verbatim>\<open>requests.get\<close> and \<^verbatim>\<open>json.loads\<close> raise.
\<close>

datatype error =
    KeyError string
  | TypeError
  | ValueError
  | AttributeError
  | RequestError
  | DecodeError
  | Exception string

text \<open>\<^verbatim>\<open>needle in haystack\<close> on two Python strings: a substring test.\<close>

primrec starts_with :: "string \<Rightarrow> string \<Rightarrow> bool" where
  "starts_with [] s = True"
| "starts_with (p # ps) s = (case s of [] \<Rightarrow> False | c # cs \<Rightarrow> p = c \<and> starts_with ps cs)"

primrec is_substring :: "string \<Rightarrow> string \<Rightarrow> bool" where
  "is_substring p [] = (p = [])"
| "is_substring p (c # cs) = (starts_with p (c # cs) \<or> is_substring p cs)"

text \<open>
  \<^verbatim>\<open>k in v\<close> for a string \<open>k\<close>: key membership on a dict, element membership on a list,
  substring test on a string, \<^verbatim>\<open>TypeError\<close> on anything else.
\<close>

fun py_contains :: "string \<Rightarrow> json \<Rightarrow> error + bool" where
  "py_contains k (JObj kvs) = Inr (k \<in> set (map fst kvs))"
| "py_contains k (JArr xs) = Inr (JStr k \<in> set xs)"
| "py_contains k (JStr s) = Inr (is_substring k s)"
| "py_contains k v = Inl TypeError"

text \<open>
  \<^verbatim>\<open>v[k]\<close> for a string \<open>k\<close>: the value on a dict (\<^verbatim>\<open>KeyError\<close> when the key is missing),
  \<^verbatim>\<open>TypeError\<close> on anything else (lists and strings want integer indices, the rest is not
  subscriptable).
\<close>

fun py_getitem :: "json \<Rightarrow> string \<Rightarrow> error + json" where
  "py_getitem (JObj kvs) k = (case map_of kvs k of None \<Rightarrow> Inl (KeyError k) | Some v \<Rightarrow> Inr v)"
| "py_getitem v k = Inl TypeError"

text \<open>
  Iterating a value, as \<^verbatim>\<open>filter(f, v)\<close> does: the elements of a list, the keys of a dict,
  the one-character strings of a string, \<^verbatim>\<open>TypeError\<close> on anything else.
\<close>

fun py_iter :: "json \<Rightarrow> error + json list" where
  "py_iter (JArr xs) = Inr xs"
| "py_iter (JObj kvs) = Inr (map (\<lambda>kv. JStr (fst kv)) kvs)"
| "py_iter (JStr s) = Inr (map (\<lambda>c. JStr [c]) s)"
| "py_iter v = Inl TypeError"

text \<open>
  \<^verbatim>\<open>list(filter(f, xs))\<close> where \<open>f\<close> may raise: the elements are tested in order and the
  first exception ends the whole filter.
\<close>

fun py_filter :: "('a \<Rightarrow> error + bool) \<Rightarrow> 'a list \<Rightarrow> error + 'a list" where
  "py_filter f [] = Inr []"
| "py_filter f (x # xs) =
     (case f x of
        Inl e \<Rightarrow> Inl e
      | Inr b \<Rightarrow>
          (case py_filter f xs of
             Inl e \<Rightarrow> Inl e
           | Inr ys \<Rightarrow> Inr (if b then x # ys else ys)))"

section \<open>\<^verbatim>\<open>get_ad_archive_id\<close>\<close>

definition is_digit :: "char \<Rightarrow> bool" where
  "is_digit c = (c \<in> set ''0123456789'')"

text \<open>
  \<^verbatim>\<open>re.search(r"/\?id=([0-9]+)", s)\<close>: the pattern is tried at every position from the left;
  at a position it matches when the text there is \<^verbatim>\<open>/?id=\<close> followed by at least one digit,
  and group 1 is the longest run of digits (the \<^verbatim>\<open>+\<close> is greedy and nothing follows it).
  The result is group 1 of the leftmost match, or \<open>None\<close>.
\<close>

definition match_here :: "string \<Rightarrow> string option" where
  "match_here s =
     (if starts_with ''/?id='' s
      then (let ds = takeWhile is_digit (drop 5 s) in if ds = [] then None else Some ds)
      else None)"

fun re_search :: "string \<Rightarrow> string option" where
  "re_search [] = None"
| "re_search (c # cs) =
     (case match_here (c # cs) of Some g \<Rightarrow> Some g | None \<Rightarrow> re_search cs)"

text \<open>
  Whether the text \<open>p\<close> occurs in \<open>s\<close> with a digit right after it.  This is not code of the
  client: it states, in executable form, which URLs the results below are about.
\<close>

primrec occurs_before_digit :: "string \<Rightarrow> string \<Rightarrow> bool" where
  "occurs_before_digit p [] = False"
| "occurs_before_digit p (c # cs) =
     ((starts_with p (c # cs) \<and>
       (case drop (length p) (c # cs) of [] \<Rightarrow> False | d # rest \<Rightarrow> is_digit d))
      \<or> occurs_before_digit p cs)"

text \<open>
  Line 20.  \<^verbatim>\<open>data["ad_snapshot_url"]\<close> may raise; \<^verbatim>\<open>re.search\<close> raises \<^verbatim>\<open>TypeError\<close> on
  a value that is not a string; with no match it returns \<^verbatim>\<open>None\<close>, and \<^verbatim>\<open>.group(1)\<close> on it
  raises \<^verbatim>\<open>AttributeError\<close>.
\<close>

definition get_ad_archive_id :: "json \<Rightarrow> error + string" where
  "get_ad_archive_id data =
     (case py_getitem data ''ad_snapshot_url'' of
        Inl e \<Rightarrow> Inl e
      | Inr v \<Rightarrow>
          (case v of
             JStr s \<Rightarrow> (case re_search s of None \<Rightarrow> Inl AttributeError | Some g \<Rightarrow> Inr g)
           | _ \<Rightarrow> Inl TypeError))"

section \<open>\<^verbatim>\<open>datetime.strptime(s, "%Y-%m-%d").timestamp()\<close>\<close>

text \<open>
  The format \<^verbatim>\<open>%Y-%m-%d\<close> is the regular expression
  \<^verbatim>\<open>(\d\d\d\d)-(1[0-2]|0[1-9]|[1-9])-(3[01]|[12]\d|0[1-9]|[1-9]| [1-9])\<close>,
  which has to match the whole string.  The month alternative is followed by a \<^verbatim>\<open>-\<close>
  and contains none, so the month is the text up to the next \<^verbatim>\<open>-\<close> and the day is
  all that follows it.
\<close>

text \<open>The value of a decimal digit: its position among the ten digits.\<close>

definition digit_val :: "char \<Rightarrow> int" where
  "digit_val c = int (length (takeWhile (\<lambda>d. d \<noteq> c) ''0123456789''))"

definition is_nonzero_digit :: "char \<Rightarrow> bool" where
  "is_nonzero_digit c = (c \<in> set ''123456789'')"

fun parse_month :: "string \<Rightarrow> int option" where
  "parse_month [a, b] =
     (if a = CHR ''1'' \<and> b \<in> set ''012'' then Some (10 + digit_val b)
      else if a = CHR ''0'' \<and> is_nonzero_digit b then Some (digit_val b)
      else None)"
| "parse_month [a] = (if is_nonzero_digit a then Some (digit_val a) else None)"
| "parse_month s = None"

fun parse_day :: "string \<Rightarrow> int option" where
  "parse_day [a, b] =
     (if a = CHR ''3'' \<and> b \<in> set ''01'' then Some (30 + digit_val b)
      else if a \<in> set ''12'' \<and> is_digit b then Some (10 * digit_val a + digit_val b)
      else if a = CHR ''0'' \<and> is_nonzero_digit b then Some (digit_val b)
      else if a = CHR '' '' \<and> is_nonzero_digit b then Some (digit_val b)
      else None)"
| "parse_day [a] = (if is_nonzero_digit a then Some (digit_val a) else None)"
| "parse_day s = None"

text \<open>The calendar of \<^verbatim>\<open>datetime.py\<close>: \<^verbatim>\<open>_is_leap\<close>, \<^verbatim>\<open>_days_in_month\<close>,
  \<^verbatim>\<open>_days_before_year\<close>, \<^verbatim>\<open>_days_before_month\<close>, \<^verbatim>\<open>_ymd2ord\<close>.\<close>

definition is_leap :: "int \<Rightarrow> bool" where
  "is_leap y = (y mod 4 = 0 \<and> (y mod 100 \<noteq> 0 \<or> y mod 400 = 0))"

definition DAYS_IN_MONTH :: "int list" where
  "DAYS_IN_MONTH = [31, 28, 31, 30, 31, 30, 31, 31, 30, 31, 30, 31]"

definition days_in_month :: "int \<Rightarrow> int \<Rightarrow> int" where
  "days_in_month y m = (if m = 2 \<and> is_leap y then 29 else DAYS_IN_MONTH ! nat (m - 1))"

definition days_before_year :: "int \<Rightarrow> int" where
  "days_before_year y = (y - 1) * 365 + (y - 1) div 4 - (y - 1) div 100 + (y - 1) div 400"

definition days_before_month :: "int \<Rightarrow> int \<Rightarrow> int" where
  "days_before_month y m =
     sum_list (take (nat (m - 1)) DAYS_IN_MONTH) + (if m > 2 \<and> is_leap y then 1 else 0)"

definition ymd2ord :: "int \<Rightarrow> int \<Rightarrow> int \<Rightarrow> int" where
  "ymd2ord y m d = days_before_year y + days_before_month y m + d"

text \<open>
  \<^verbatim>\<open>datetime.strptime(s, "%Y-%m-%d")\<close> on a string: \<^verbatim>\<open>ValueError\<close> when the text does not
  match, when the year is 0 or when the month has no such day.
\<close>

definition strptime :: "string \<Rightarrow> error + int \<times> int \<times> int" where
  "strptime s =
     (case s of
        y1 # y2 # y3 # y4 # dash # rest \<Rightarrow>
          if is_digit y1 \<and> is_digit y2 \<and> is_digit y3 \<and> is_digit y4 \<and> dash = CHR ''-''
          then
            (case dropWhile (\<lambda>c. c \<noteq> CHR ''-'') rest of
               [] \<Rightarrow> Inl ValueError
             | dash' # dtok \<Rightarrow>
                 (case parse_month (takeWhile (\<lambda>c. c \<noteq> CHR ''-'') rest) of
                    None \<Rightarrow> Inl ValueError
                  | Some m \<Rightarrow>
                      (case parse_day dtok of
                         None \<Rightarrow> Inl ValueError
                       | Some d \<Rightarrow>
                           (let y = 1000 * digit_val y1 + 100 * digit_val y2
                                    + 10 * digit_val y3 + digit_val y4
                            in if 1 \<le> y \<and> d \<le> days_in_month y m
                               then Inr (y, m, d) else Inl ValueError))))
          else Inl ValueError
      | _ \<Rightarrow> Inl ValueError)"

text \<open>
  \<^verbatim>\<open>.timestamp()\<close> of a naive midnight: seconds since the epoch of local midnight.  The
  local zone is a fixed offset of \<open>utc_offset\<close> seconds east of UTC (no daylight saving);
  day 719163 is 1970-01-01.  The result is a whole number, exact as a Python float.
  The conversion also looks at the local time one day earlier, which does not exist for
  0001-01-01 (day 1): there it raises \<^verbatim>\<open>ValueError\<close>.
\<close>

definition timestamp :: "int \<Rightarrow> int \<times> int \<times> int \<Rightarrow> error + int" where
  "timestamp utc_offset ymd =
     (case ymd of
        (y, m, d) \<Rightarrow>
          if ymd2ord y m d = 1 then Inl ValueError
          else Inr ((ymd2ord y m d - 719163) * 86400 - utc_offset))"

text \<open>The whole expression on a decoded value: \<^verbatim>\<open>strptime\<close> raises \<^verbatim>\<open>TypeError\<close> on a
  value that is not a string.\<close>

definition strptime_timestamp :: "int \<Rightarrow> json \<Rightarrow> error + int" where
  "strptime_timestamp utc_offset v =
     (case v of
        JStr s \<Rightarrow> (case strptime s of Inl e \<Rightarrow> Inl e | Inr ymd \<Rightarrow> timestamp utc_offset ymd)
      | _ \<Rightarrow> Inl TypeError)"

section \<open>The date window filter (lines 112-138)\<close>

text \<open>
  \<open>start_time_cutoff_before\<close> is a timestamp or the empty string (\<open>None\<close> here).  Line 112
  tests its truth value: the empty string is false, and so is the float \<open>0.0\<close>.
\<close>

record window =
  start_time_cutoff_after :: int
  start_time_cutoff_before :: "int option"

definition truthy :: "int option \<Rightarrow> bool" where
  "truthy c = (case c of None \<Rightarrow> False | Some t \<Rightarrow> t \<noteq> 0)"

text \<open>
  The two lambdas: \<^verbatim>\<open>("ad_delivery_start_time" in ad_archive) and (... comparison ...)\<close>,
  with the comparison on the record's timestamp as the parameter \<open>cmp\<close>.
\<close>

definition date_test :: "int \<Rightarrow> (int \<Rightarrow> bool) \<Rightarrow> json \<Rightarrow> error + bool" where
  "date_test utc_offset cmp ad_archive =
     (case py_contains ''ad_delivery_start_time'' ad_archive of
        Inl e \<Rightarrow> Inl e
      | Inr False \<Rightarrow> Inr False
      | Inr True \<Rightarrow>
          (case py_getitem ad_archive ''ad_delivery_start_time'' of
             Inl e \<Rightarrow> Inl e
           | Inr v \<Rightarrow>
               (case strptime_timestamp utc_offset v of
                  Inl e \<Rightarrow> Inl e
                | Inr t \<Rightarrow> Inr (cmp t))))"

definition filter_records :: "int \<Rightarrow> window \<Rightarrow> json list \<Rightarrow> error + json list" where
  "filter_records utc_offset w records =
     (if truthy (start_time_cutoff_before w)
      then py_filter
             (date_test utc_offset
                (\<lambda>t. the (start_time_cutoff_before w) \<ge> t \<and> t \<ge> start_time_cutoff_after w))
             records
      else py_filter (date_test utc_offset (\<lambda>t. t \<ge> start_time_cutoff_after w)) records)"

definition filter_page :: "int \<Rightarrow> window \<Rightarrow> json \<Rightarrow> error + json list" where
  "filter_page utc_offset w response_data =
     (case py_getitem response_data ''data'' of
        Inl e \<Rightarrow> Inl e
      | Inr data \<Rightarrow>
          (case py_iter data of
             Inl e \<Rightarrow> Inl e
           | Inr records \<Rightarrow> filter_records utc_offset w records))"

section \<open>\<^verbatim>\<open>_get_ad_archives_from_url\<close>: the traversal loop (lines 82-149)\<close>

text \<open>The three local variables of the loop.  \<open>next_page_url\<close> is what line 147 stores: any
  decoded value, \<open>JNull\<close> being Python's \<^verbatim>\<open>None\<close>.\<close>

record traversal_state =
  next_page_url :: json
  last_error_url :: "string option"
  last_retry_count :: int

datatype control = Continue traversal_state | Break | Raise error

definition error_message :: "(json \<Rightarrow> string) \<Rightarrow> json \<Rightarrow> string \<Rightarrow> string" where
  "error_message dumps payload url =
     ''Error message: ['' @ dumps payload @ ''], failed on URL: ['' @ url @ '']''"

text \<open>Lines 146-149, run when the generator is resumed after the \<^verbatim>\<open>yield\<close>.\<close>

definition advance :: "json \<Rightarrow> error + json" where
  "advance response_data =
     (case py_contains ''paging'' response_data of
        Inl e \<Rightarrow> Inl e
      | Inr True \<Rightarrow>
          (case py_getitem response_data ''paging'' of
             Inl e \<Rightarrow> Inl e
           | Inr paging \<Rightarrow> py_getitem paging ''next'')
      | Inr False \<Rightarrow> Inr JNull)"

text \<open>
  One pass through the loop body (lines 96-149) for the decoded response of the fetch of
  \<open>url\<close>: the batch yielded, if any, and how the loop goes on.  \<open>dumps\<close> is \<^verbatim>\<open>json.dumps\<close>.
\<close>

definition iteration ::
  "(json \<Rightarrow> string) \<Rightarrow> int \<Rightarrow> window \<Rightarrow> int \<Rightarrow> traversal_state \<Rightarrow> string \<Rightarrow> json
     \<Rightarrow> json list option \<times> control" where
  "iteration dumps utc_offset w retry_limit st url response_data =
     (case py_contains ''error'' response_data of
        Inl e \<Rightarrow> (None, Raise e)
      | Inr True \<Rightarrow>
          if Some url = last_error_url st
          then
            if last_retry_count st \<ge> retry_limit
            then
              (case py_getitem response_data ''error'' of
                 Inl e \<Rightarrow> (None, Raise e)
               | Inr payload \<Rightarrow> (None, Raise (Exception (error_message dumps payload url))))
            else (None, Continue (st\<lparr>last_retry_count := last_retry_count st + 1\<rparr>))
          else (None, Continue (st\<lparr>last_error_url := Some url, last_retry_count := 0 + 1\<rparr>))
      | Inr False \<Rightarrow>
          (case filter_page utc_offset w response_data of
             Inl e \<Rightarrow> (None, Raise e)
           | Inr filtered \<Rightarrow>
               if length filtered = 0 then (None, Break)
               else
                 (Some filtered,
                  case advance response_data of
                    Inl e \<Rightarrow> Raise e
                  | Inr next_url \<Rightarrow> Continue (st\<lparr>next_page_url := next_url\<rparr>))))"

text \<open>
  What an observer of one run sees, in order: every \<^verbatim>\<open>requests.get\<close> with its URL and
  every batch yielded.  The network is a script: the list of what the successive fetches
  return, \<open>Inl e\<close> when \<^verbatim>\<open>requests.get\<close> or \<^verbatim>\<open>json.loads\<close> raises \<open>e\<close>, \<open>Inr v\<close> when the
  response decodes to \<open>v\<close>.  The consumer asks for every element, so the generator is
  resumed after each \<^verbatim>\<open>yield\<close>.  A run ends \<open>Finished\<close> (the generator is exhausted),
  \<open>Raised\<close>, or \<open>Pending\<close>: the loop is about to fetch again and the script has no further
  response.
\<close>

datatype event = Fetch string | Yield "json list"

datatype outcome = Finished | Raised error | Pending traversal_state

definition prepend :: "event list \<Rightarrow> event list \<times> outcome \<Rightarrow> event list \<times> outcome" where
  "prepend evs r = (evs @ fst r, snd r)"

definition yielded :: "json list option \<Rightarrow> event list" where
  "yielded y = (case y of None \<Rightarrow> [] | Some batch \<Rightarrow> [Yield batch])"

text \<open>
  The \<^verbatim>\<open>while\<close> loop, by recursion on the script.  A cursor that is neither \<^verbatim>\<open>None\<close>
  nor a string makes \<^verbatim>\<open>requests.get\<close> raise before anything is sent.
\<close>

fun traverse ::
  "(json \<Rightarrow> string) \<Rightarrow> int \<Rightarrow> window \<Rightarrow> int \<Rightarrow> traversal_state \<Rightarrow> (error + json) list
     \<Rightarrow> event list \<times> outcome" where
  "traverse dumps utc_offset w retry_limit st [] =
     (case next_page_url st of
        JNull \<Rightarrow> ([], Finished)
      | JStr url \<Rightarrow> ([], Pending st)
      | _ \<Rightarrow> ([], Raised RequestError))"
| "traverse dumps utc_offset w retry_limit st (response # rest) =
     (case next_page_url st of
        JNull \<Rightarrow> ([], Finished)
      | JStr url \<Rightarrow>
          (case response of
             Inl e \<Rightarrow> ([Fetch url], Raised e)
           | Inr response_data \<Rightarrow>
               (case iteration dumps utc_offset w retry_limit st url response_data of
                  (y, ctl) \<Rightarrow>
                    prepend (Fetch url # yielded y)
                      (case ctl of
                         Continue st' \<Rightarrow> traverse dumps utc_offset w retry_limit st' rest
                       | Break \<Rightarrow> ([], Finished)
                       | Raise e \<Rightarrow> ([], Raised e))))
      | _ \<Rightarrow> ([], Raised RequestError))"

text \<open>Lines 85-92, then the loop.  An empty \<open>ad_delivery_date_max\<close> is false at line 89.\<close>

definition get_ad_archives_from_url ::
  "(json \<Rightarrow> string) \<Rightarrow> int \<Rightarrow> string \<Rightarrow> string \<Rightarrow> int \<Rightarrow> string \<Rightarrow> (error + json) list
     \<Rightarrow> event list \<times> outcome" where
  "get_ad_archives_from_url dumps utc_offset url ad_delivery_date_min retry_limit
       ad_delivery_date_max script =
     (case strptime_timestamp utc_offset (JStr ad_delivery_date_min) of
        Inl e \<Rightarrow> ([], Raised e)
      | Inr cutoff_after \<Rightarrow>
          (case (if ad_delivery_date_max \<noteq> []
                 then (case strptime_timestamp utc_offset (JStr ad_delivery_date_max) of
                         Inl e \<Rightarrow> Inl e
                       | Inr t \<Rightarrow> Inr (Some t))
                 else Inr None) of
             Inl e \<Rightarrow> ([], Raised e)
           | Inr cutoff_before \<Rightarrow>
               traverse dumps utc_offset
                 \<lparr>start_time_cutoff_after = cutoff_after,
                  start_time_cutoff_before = cutoff_before\<rparr>
                 retry_limit
                 \<lparr>next_page_url = JStr url, last_error_url = None, last_retry_count = 0\<rparr>
                 script))"

text \<open>Lines 151-156: the restart entry point, with the defaults of line 83.\<close>

definition generate_ad_archives_from_url ::
  "(json \<Rightarrow> string) \<Rightarrow> int \<Rightarrow> string \<Rightarrow> string \<Rightarrow> (error + json) list
     \<Rightarrow> event list \<times> outcome" where
  "generate_ad_archives_from_url dumps utc_offset failure_url ad_delivery_date_min script =
     get_ad_archives_from_url dumps utc_offset failure_url ad_delivery_date_min 3 [] script"

section \<open>\<^verbatim>\<open>json.dumps\<close>\<close>

text \<open>
  The traversal takes the serializer as a parameter.  \<open>json_dumps\<close> is the library's
  default behaviour (separators \<^verbatim>\<open>", "\<close> and \<^verbatim>\<open>": "\<close>, \<^verbatim>\<open>ensure_ascii\<close>), used where a
  concrete run is evaluated.
\<close>

definition hex_digit :: "nat \<Rightarrow> char" where
  "hex_digit n = ''0123456789abcdef'' ! n"

definition escape_char :: "char \<Rightarrow> string" where
  "escape_char c =
     (if c = CHR 0x5C then [CHR 0x5C, CHR 0x5C]
      else if c = CHR 0x22 then [CHR 0x5C, CHR 0x22]
      else if c = CHR 0x08 then [CHR 0x5C, CHR ''b'']
      else if c = CHR 0x0C then [CHR 0x5C, CHR ''f'']
      else if c = CHR 0x0A then [CHR 0x5C, CHR ''n'']
      else if c = CHR 0x0D then [CHR 0x5C, CHR ''r'']
      else if c = CHR 0x09 then [CHR 0x5C, CHR ''t'']
      else if (32::nat) \<le> of_char c \<and> (of_char c :: nat) \<le> 126 then [c]
      else [CHR 0x5C, CHR ''u'', CHR ''0'', CHR ''0'',
            hex_digit (of_char c div 16), hex_digit (of_char c mod 16)])"

definition encode_string :: "string \<Rightarrow> string" where
  "encode_string s = [CHR 0x22] @ concat (map escape_char s) @ [CHR 0x22]"

fun show_nat :: "nat \<Rightarrow> string" where
  "show_nat n = (if n < 10 then [hex_digit n] else show_nat (n div 10) @ [hex_digit (n mod 10)])"

definition show_int :: "int \<Rightarrow> string" where
  "show_int i = (if i < 0 then CHR ''-'' # show_nat (nat (- i)) else show_nat (nat i))"

fun join :: "string \<Rightarrow> string list \<Rightarrow> string" where
  "join sep [] = []"
| "join sep [x] = x"
| "join sep (x # y # ys) = x @ sep @ join sep (y # ys)"

fun json_dumps :: "json \<Rightarrow> string" where
  "json_dumps JNull = ''null''"
| "json_dumps (JBool b) = (if b then ''true'' else ''false'')"
| "json_dumps (JNum i) = show_int i"
| "json_dumps (JStr s) = encode_string s"
| "json_dumps (JArr xs) = ''['' @ join '', '' (map json_dumps xs) @ '']''"
| "json_dumps (JObj kvs) =
     ''{'' @ join '', ''
              (map (\<lambda>kv. encode_string (fst kv) @ '': '' @ json_dumps (snd kv)) kvs) @ ''}''"

section \<open>Sample responses\<close>

text \<open>Pages used where a run is evaluated: a record dated 2022-01-05, an API-level error,
  a last page without paging data, a page whose paging data has cursors but no next URL
  (the shape of a last page of the Graph API), pages with a next URL, and a page with a
  record dated 30 February.\<close>

definition sample_record :: json where
  "sample_record =
     JObj [(''id'', JStr ''1''), (''ad_delivery_start_time'', JStr ''2022-01-05'')]"

definition undated_record :: json where
  "undated_record = JObj [(''id'', JStr ''2'')]"

definition error_page :: json where
  "error_page = JObj [(''error'', JObj [(''code'', JNum 190)])]"

definition last_page :: json where
  "last_page = JObj [(''data'', JArr [sample_record])]"

definition cursors_only_page :: json where
  "cursors_only_page =
     JObj [(''data'', JArr [sample_record]),
           (''paging'', JObj [(''cursors'', JObj [(''after'', JStr ''abc'')])])]"

definition linked_page :: json where
  "linked_page =
     JObj [(''data'', JArr [undated_record, sample_record]),
           (''paging'', JObj [(''next'', JStr ''https://graph.facebook.com/page2'')])]"

definition empty_page :: json where
  "empty_page =
     JObj [(''data'', JArr [undated_record]),
           (''paging'', JObj [(''next'', JStr ''https://graph.facebook.com/page3'')])]"

definition misdated_page :: json where
  "misdated_page =
     JObj [(''data'',
            JArr [sample_record, JObj [(''ad_delivery_start_time'', JStr ''2022-02-30'')]]),
           (''paging'', JObj [(''next'', JStr ''https://graph.facebook.com/page2'')])]"

section \<open>Properties of \<^verbatim>\<open>get_ad_archive_id\<close>\<close>

lemma starts_with_append: "starts_with p s \<longleftrightarrow> (\<exists>t. s = p @ t)"
  by (induction p arbitrary: s) (auto split: list.splits)

lemma match_here_Some:
  assumes "match_here s = Some g"
  shows "\<exists>post. s = ''/?id='' @ g @ post \<and> g \<noteq> [] \<and> (\<forall>c\<in>set g. is_digit c)"
proof -
  from assms have sw: "starts_with ''/?id='' s"
    by (auto simp: match_here_def split: if_splits)
  then obtain t where t: "s = ''/?id='' @ t"
    using starts_with_append by blast
  from assms sw t have g: "g = takeWhile is_digit t" and ne: "g \<noteq> []"
    by (auto simp: match_here_def Let_def split: if_splits)
  have "t = g @ dropWhile is_digit t"
    by (simp add: g)
  moreover have "\<forall>c\<in>set g. is_digit c"
    unfolding g by (auto dest: set_takeWhileD)
  ultimately show ?thesis
    using t ne by blast
qed

lemma re_search_Some:
  "re_search s = Some g \<Longrightarrow>
     \<exists>pre post. s = pre @ ''/?id='' @ g @ post \<and> g \<noteq> [] \<and> (\<forall>c\<in>set g. is_digit c)"
proof (induction s)
  case Nil
  then show ?case by simp
next
  case (Cons c cs)
  show ?case
  proof (cases "match_here (c # cs)")
    case (Some g')
    with Cons.prems have "g' = g" by simp
    with Some obtain post where "c # cs = ''/?id='' @ g @ post" "g \<noteq> []" "\<forall>c\<in>set g. is_digit c"
      using match_here_Some by blast
    then have "c # cs = [] @ ''/?id='' @ g @ post \<and> g \<noteq> [] \<and> (\<forall>c\<in>set g. is_digit c)"
      by simp
    then show ?thesis by blast
  next
    case None
    with Cons.prems have "re_search cs = Some g" by simp
    then obtain pre post where "cs = pre @ ''/?id='' @ g @ post" "g \<noteq> []" "\<forall>c\<in>set g. is_digit c"
      using Cons.IH by blast
    then have "c # cs = (c # pre) @ ''/?id='' @ g @ post \<and> g \<noteq> [] \<and> (\<forall>c\<in>set g. is_digit c)"
      by simp
    then show ?thesis by blast
  qed
qed

lemma occurs_here:
  "(starts_with p s \<and> (case drop (length p) s of [] \<Rightarrow> False | d # rest \<Rightarrow> is_digit d))
     \<longleftrightarrow> (\<exists>d post. s = p @ d # post \<and> is_digit d)"
proof
  assume L: "starts_with p s \<and> (case drop (length p) s of [] \<Rightarrow> False | d # rest \<Rightarrow> is_digit d)"
  then obtain t where t: "s = p @ t"
    using starts_with_append by blast
  then have "drop (length p) s = t" by simp
  with L obtain d post where "t = d # post" "is_digit d"
    by (cases t) auto
  with t show "\<exists>d post. s = p @ d # post \<and> is_digit d" by blast
next
  assume "\<exists>d post. s = p @ d # post \<and> is_digit d"
  then obtain d post where s: "s = p @ d # post" and d: "is_digit d" by blast
  from s have "starts_with p s" using starts_with_append by blast
  moreover from s have "drop (length p) s = d # post" by simp
  ultimately show "starts_with p s \<and>
      (case drop (length p) s of [] \<Rightarrow> False | d # rest \<Rightarrow> is_digit d)"
    using d by simp
qed

lemma occurs_before_digit_Cons:
  "occurs_before_digit p (c # cs) \<longleftrightarrow>
     (\<exists>d post. c # cs = p @ d # post \<and> is_digit d) \<or> occurs_before_digit p cs"
  by (simp only: occurs_before_digit.simps occurs_here)

lemma occurs_before_digit_iff:
  "occurs_before_digit p s \<longleftrightarrow> (\<exists>pre d post. s = pre @ p @ d # post \<and> is_digit d)"
proof (induction s)
  case Nil
  then show ?case by simp
next
  case (Cons c cs)
  have "(\<exists>pre d post. c # cs = pre @ p @ d # post \<and> is_digit d) \<longleftrightarrow>
        (\<exists>d post. c # cs = p @ d # post \<and> is_digit d) \<or>
        (\<exists>pre d post. cs = pre @ p @ d # post \<and> is_digit d)"
  proof
    assume "\<exists>pre d post. c # cs = pre @ p @ d # post \<and> is_digit d"
    then obtain pre d post where e: "c # cs = pre @ p @ d # post" and d: "is_digit d" by blast
    show "(\<exists>d post. c # cs = p @ d # post \<and> is_digit d) \<or>
        (\<exists>pre d post. cs = pre @ p @ d # post \<and> is_digit d)"
    proof (cases pre)
      case Nil
      with e d show ?thesis by auto
    next
      case (Cons a pre')
      with e d have "cs = pre' @ p @ d # post" by simp
      with d show ?thesis by blast
    qed
  next
    assume "(\<exists>d post. c # cs = p @ d # post \<and> is_digit d) \<or>
        (\<exists>pre d post. cs = pre @ p @ d # post \<and> is_digit d)"
    then show "\<exists>pre d post. c # cs = pre @ p @ d # post \<and> is_digit d"
    proof
      assume "\<exists>d post. c # cs = p @ d # post \<and> is_digit d"
      then obtain d post where "c # cs = [] @ p @ d # post" "is_digit d" by auto
      then show ?thesis by blast
    next
      assume "\<exists>pre d post. cs = pre @ p @ d # post \<and> is_digit d"
      then obtain pre d post where "c # cs = (c # pre) @ p @ d # post" "is_digit d" by auto
      then show ?thesis by blast
    qed
  qed
  with Cons.IH show ?case
    by (simp only: occurs_before_digit_Cons)
qed

lemma match_here_occurs:
  assumes "match_here s = Some g"
  shows "occurs_before_digit ''/?id='' s"
proof -
  from match_here_Some [OF assms] obtain post where s: "s = ''/?id='' @ g @ post" and "g \<noteq> []"
    and dg: "\<forall>c\<in>set g. is_digit c" by blast
  then obtain d g' where g: "g = d # g'" by (cases g) auto
  have "s = [] @ ''/?id='' @ d # (g' @ post)" by (simp add: s g)
  moreover have "is_digit d" using dg g by simp
  ultimately show ?thesis
    unfolding occurs_before_digit_iff by blast
qed

lemma re_search_None:
  "\<not> occurs_before_digit ''/?id='' s \<Longrightarrow> re_search s = None"
proof (induction s)
  case Nil
  then show ?case by simp
next
  case (Cons c cs)
  have "match_here (c # cs) = None"
  proof (cases "match_here (c # cs)")
    case (Some g)
    from match_here_occurs [OF Some] Cons.prems show ?thesis by blast
  qed simp
  moreover from Cons.prems have "\<not> occurs_before_digit ''/?id='' cs"
    by (simp only: occurs_before_digit_Cons) blast
  ultimately show ?case using Cons.IH by simp
qed

lemma occurs_without_slash:
  assumes "occurs_before_digit ''/?id='' s"
  shows "occurs_before_digit ''?id='' s"
proof -
  from assms obtain pre d post where "s = pre @ ''/?id='' @ d # post" and d: "is_digit d"
    unfolding occurs_before_digit_iff by blast
  then have "s = (pre @ ''/'') @ ''?id='' @ d # post" by simp
  with d show ?thesis
    unfolding occurs_before_digit_iff by blast
qed

text \<open>
  Claim C8.  On the record whose \<^verbatim>\<open>ad_snapshot_url\<close> is
  \<^verbatim>\<open>https://example.com/ads/library/?id=123456789\<close> the helper returns \<^verbatim>\<open>123456789\<close>.
  On a record whose \<^verbatim>\<open>ad_snapshot_url\<close> is a string in which \<^verbatim>\<open>?id=\<close> is nowhere followed
  by a digit, it raises (\<^verbatim>\<open>AttributeError\<close>, from \<^verbatim>\<open>.group\<close> on \<^verbatim>\<open>None\<close>).
\<close>

theorem get_ad_archive_id_extracts_or_raises:
  "get_ad_archive_id
     (JObj [(''ad_snapshot_url'', JStr ''https://example.com/ads/library/?id=123456789'')])
     = Inr ''123456789''
   \<and> (map_of kvs ''ad_snapshot_url'' = Some (JStr s) \<longrightarrow>
        \<not> occurs_before_digit ''?id='' s \<longrightarrow>
        get_ad_archive_id (JObj kvs) = Inl AttributeError)"
proof (intro conjI impI)
  show "get_ad_archive_id
     (JObj [(''ad_snapshot_url'', JStr ''https://example.com/ads/library/?id=123456789'')])
     = Inr ''123456789''"
    by (simp add: get_ad_archive_id_def match_here_def is_digit_def)
next
  assume kv: "map_of kvs ''ad_snapshot_url'' = Some (JStr s)"
    and no: "\<not> occurs_before_digit ''?id='' s"
  from no occurs_without_slash have "\<not> occurs_before_digit ''/?id='' s" by blast
  then have "re_search s = None" by (rule re_search_None)
  with kv show "get_ad_archive_id (JObj kvs) = Inl AttributeError"
    by (simp add: get_ad_archive_id_def)
qed

theorem get_ad_archive_id_extracts_or_raises_witness:
  "map_of [(''ad_snapshot_url'', JStr ''https://example.com/ads/library/'')] ''ad_snapshot_url''
     = Some (JStr ''https://example.com/ads/library/'')
   \<and> \<not> occurs_before_digit ''?id='' ''https://example.com/ads/library/''
   \<and> get_ad_archive_id (JObj [(''ad_snapshot_url'', JStr ''https://example.com/ads/library/'')])
       = Inl AttributeError"
  using get_ad_archive_id_extracts_or_raises [of "[(''ad_snapshot_url'', JStr ''https://example.com/ads/library/'')]"
               "''https://example.com/ads/library/''"]
  by (simp add: is_digit_def)

text \<open>
  Claim C9.  The pattern begins with a slash: on a record whose \<^verbatim>\<open>ad_snapshot_url\<close> is a
  string in which \<^verbatim>\<open>/?id=\<close> is nowhere followed by a digit the helper raises, whether or
  not \<^verbatim>\<open>?id=\<close> and digits occur in it.  The instance below is the URL
  \<^verbatim>\<open>https://example.com/ads?id=123\<close>, which has \<^verbatim>\<open>?id=123\<close> with no slash before it.
\<close>

theorem get_ad_archive_id_needs_slash:
  assumes "map_of kvs ''ad_snapshot_url'' = Some (JStr s)"
    and "\<not> occurs_before_digit ''/?id='' s"
  shows "get_ad_archive_id (JObj kvs) = Inl AttributeError"
  using assms re_search_None [of s] by (simp add: get_ad_archive_id_def)

theorem get_ad_archive_id_needs_slash_witness:
  "map_of [(''ad_snapshot_url'', JStr ''https://example.com/ads?id=123'')] ''ad_snapshot_url''
     = Some (JStr ''https://example.com/ads?id=123'')
   \<and> occurs_before_digit ''?id='' ''https://example.com/ads?id=123''
   \<and> \<not> occurs_before_digit ''/?id='' ''https://example.com/ads?id=123''
   \<and> get_ad_archive_id (JObj [(''ad_snapshot_url'', JStr ''https://example.com/ads?id=123'')])
       = Inl AttributeError"
  using get_ad_archive_id_needs_slash [of "[(''ad_snapshot_url'', JStr ''https://example.com/ads?id=123'')]"
               "''https://example.com/ads?id=123''"]
  by (simp add: is_digit_def)

section \<open>Properties of the traversal\<close>

text \<open>The definitions unfolded to evaluate a run on concrete responses.\<close>

lemmas eval_defs = iteration_def filter_page_def filter_records_def date_test_def
  strptime_timestamp_def strptime_def timestamp_def ymd2ord_def days_before_year_def
  days_before_month_def days_in_month_def DAYS_IN_MONTH_def is_leap_def digit_val_def
  is_digit_def is_nonzero_digit_def truthy_def advance_def prepend_def yielded_def
  get_ad_archives_from_url_def generate_ad_archives_from_url_def

lemma prepend_prepend: "prepend xs (prepend ys r) = prepend (xs @ ys) r"
  by (simp add: prepend_def)

lemma traverse_append:
  "traverse dumps tz w rl st pre = (evs, Pending st') \<Longrightarrow>
     traverse dumps tz w rl st (pre @ rest) = prepend evs (traverse dumps tz w rl st' rest)"
proof (induction pre arbitrary: st evs)
  case Nil
  then show ?case
    by (cases "next_page_url st") (auto simp: prepend_def)
next
  case (Cons r pre)
  show ?case
  proof (cases "next_page_url st")
    case (JStr url)
    show ?thesis
    proof (cases r)
      case (Inl e)
      with Cons.prems JStr show ?thesis by simp
    next
      case (Inr rd)
      obtain y ctl where it: "iteration dumps tz w rl st url rd = (y, ctl)"
        by (cases "iteration dumps tz w rl st url rd")
      show ?thesis
      proof (cases ctl)
        case (Continue st1)
        obtain evs1 out1 where t1: "traverse dumps tz w rl st1 pre = (evs1, out1)"
          by (cases "traverse dumps tz w rl st1 pre")
        from Cons.prems JStr Inr it Continue t1
        have out1: "out1 = Pending st'" and evs: "evs = Fetch url # yielded y @ evs1"
          by (simp_all add: prepend_def)
        from t1 out1 have "traverse dumps tz w rl st1 (pre @ rest)
                 = prepend evs1 (traverse dumps tz w rl st' rest)"
          using Cons.IH by blast
        with JStr Inr it Continue evs show ?thesis
          by (simp add: prepend_def)
      next
        case Break
        with Cons.prems JStr Inr it show ?thesis by (simp add: prepend_def)
      next
        case (Raise e)
        with Cons.prems JStr Inr it show ?thesis by (simp add: prepend_def)
      qed
    qed
  qed (use Cons.prems in auto)
qed

lemma traverse_step:
  assumes "next_page_url st = JStr url"
    and "iteration dumps tz w rl st url rd = (y, ctl)"
  shows "traverse dumps tz w rl st (Inr rd # rest) =
           prepend (Fetch url # yielded y)
             (case ctl of
                Continue st' \<Rightarrow> traverse dumps tz w rl st' rest
              | Break \<Rightarrow> ([], Finished)
              | Raise e \<Rightarrow> ([], Raised e))"
  using assms by simp

lemma iteration_empty:
  assumes "py_contains ''error'' page = Inr False"
    and "filter_page tz w page = Inr []"
  shows "iteration dumps tz w rl st url page = (None, Break)"
  using assms by (simp add: iteration_def)

lemma py_filter_member:
  "py_filter f xs = Inr ys \<Longrightarrow> x \<in> set ys \<Longrightarrow> x \<in> set xs \<and> f x = Inr True"
proof (induction xs arbitrary: ys)
  case Nil
  then show ?case by simp
next
  case (Cons a xs)
  from Cons.prems(1) obtain b zs where fa: "f a = Inr b" and zs: "py_filter f xs = Inr zs"
    and ys: "ys = (if b then a # zs else zs)"
    by (auto split: sum.splits)
  show ?case
  proof (cases "x \<in> set zs")
    case True
    with Cons.IH [OF zs] show ?thesis by simp
  next
    case False
    with Cons.prems(2) ys have "b" "x = a" by (auto split: if_splits)
    with fa show ?thesis by simp
  qed
qed

lemma date_test_True:
  "date_test tz cmp r = Inr True \<Longrightarrow> py_contains ''ad_delivery_start_time'' r = Inr True"
  by (auto simp: date_test_def split: sum.splits bool.splits)

lemma filter_records_member:
  assumes "filter_records tz w records = Inr batch" and "r \<in> set batch"
  shows "r \<in> set records \<and> py_contains ''ad_delivery_start_time'' r = Inr True"
  using assms
  by (auto simp: filter_records_def split: if_splits dest: py_filter_member date_test_True)

lemma filter_page_member:
  assumes "filter_page tz w page = Inr batch" and "r \<in> set batch"
  shows "py_contains ''ad_delivery_start_time'' r = Inr True"
  using assms
  by (auto simp: filter_page_def split: sum.splits dest: filter_records_member)

lemma iteration_yield:
  "iteration dumps tz w rl st url rd = (Some batch, ctl) \<Longrightarrow>
     py_contains ''error'' rd = Inr False \<and> filter_page tz w rd = Inr batch \<and> batch \<noteq> []"
  by (auto simp: iteration_def split: sum.splits bool.splits if_splits)

lemma traverse_yields:
  "Yield batch \<in> set (fst (traverse dumps tz w rl st script)) \<Longrightarrow>
     \<exists>rd. Inr rd \<in> set script \<and> filter_page tz w rd = Inr batch \<and> batch \<noteq> []"
proof (induction script arbitrary: st)
  case Nil
  then show ?case by (cases "next_page_url st") auto
next
  case (Cons r script)
  show ?case
  proof (cases "next_page_url st")
    case (JStr url)
    show ?thesis
    proof (cases r)
      case (Inl e)
      with Cons.prems JStr show ?thesis by simp
    next
      case (Inr rd)
      obtain y ctl where it: "iteration dumps tz w rl st url rd = (y, ctl)"
        by (cases "iteration dumps tz w rl st url rd")
      from Cons.prems JStr Inr it
      have "Yield batch \<in> set (yielded y) \<or>
            (\<exists>st'. ctl = Continue st' \<and> Yield batch \<in> set (fst (traverse dumps tz w rl st' script)))"
        by (cases ctl) (auto simp: prepend_def)
      then show ?thesis
      proof
        assume "Yield batch \<in> set (yielded y)"
        then have "y = Some batch" by (auto simp: yielded_def split: option.splits)
        with it iteration_yield have "filter_page tz w rd = Inr batch \<and> batch \<noteq> []" by blast
        with Inr show ?thesis by auto
      next
        assume "\<exists>st'. ctl = Continue st' \<and> Yield batch \<in> set (fst (traverse dumps tz w rl st' script))"
        with Cons.IH show ?thesis by fastforce
      qed
    qed
  qed (use Cons.prems in auto)
qed

lemma get_ad_archives_from_url_cases:
  "(\<exists>e. get_ad_archives_from_url dumps tz url dmin rl dmax script = ([], Raised e)) \<or>
   (\<exists>w. get_ad_archives_from_url dumps tz url dmin rl dmax script =
          traverse dumps tz w rl
            \<lparr>next_page_url = JStr url, last_error_url = None, last_retry_count = 0\<rparr> script)"
proof (cases "strptime_timestamp tz (JStr dmin)")
  case (Inl e)
  then show ?thesis by (simp add: get_ad_archives_from_url_def)
next
  case lo: (Inr t)
  show ?thesis
  proof (cases "dmax = []")
    case True
    with lo show ?thesis by (simp add: get_ad_archives_from_url_def) blast
  next
    case False
    with lo show ?thesis
      by (cases "strptime_timestamp tz (JStr dmax)")
         (simp add: get_ad_archives_from_url_def, simp add: get_ad_archives_from_url_def, blast)
  qed
qed

lemma get_ad_archives_from_url_yields:
  assumes "Yield batch \<in> set (fst (get_ad_archives_from_url dumps tz url dmin rl dmax script))"
  shows "\<exists>w rd. Inr rd \<in> set script \<and> filter_page tz w rd = Inr batch \<and> batch \<noteq> []"
proof -
  from get_ad_archives_from_url_cases [of dumps tz url dmin rl dmax script]
  show ?thesis
  proof
    assume "\<exists>e. get_ad_archives_from_url dumps tz url dmin rl dmax script = ([], Raised e)"
    with assms show ?thesis by auto
  next
    assume "\<exists>w. get_ad_archives_from_url dumps tz url dmin rl dmax script =
          traverse dumps tz w rl
            \<lparr>next_page_url = JStr url, last_error_url = None, last_retry_count = 0\<rparr> script"
    then obtain w where "get_ad_archives_from_url dumps tz url dmin rl dmax script =
          traverse dumps tz w rl
            \<lparr>next_page_url = JStr url, last_error_url = None, last_retry_count = 0\<rparr> script"
      by blast
    with assms have "Yield batch \<in> set (fst (traverse dumps tz w rl
            \<lparr>next_page_url = JStr url, last_error_url = None, last_retry_count = 0\<rparr> script))"
      by simp
    from traverse_yields [OF this] show ?thesis by blast
  qed
qed

lemma iteration_error_fresh:
  assumes "py_contains ''error'' rd = Inr True" and "last_error_url st \<noteq> Some url"
  shows "iteration dumps tz w rl st url rd =
           (None, Continue (st\<lparr>last_error_url := Some url, last_retry_count := 1\<rparr>))"
  using assms by (auto simp: iteration_def)

lemma iteration_error_again:
  assumes "py_contains ''error'' rd = Inr True" and "last_error_url st = Some url"
    and "last_retry_count st < rl"
  shows "iteration dumps tz w rl st url rd =
           (None, Continue (st\<lparr>last_retry_count := last_retry_count st + 1\<rparr>))"
  using assms by (auto simp: iteration_def)

lemma iteration_error_limit:
  assumes "py_contains ''error'' rd = Inr True" and "last_error_url st = Some url"
    and "rl \<le> last_retry_count st" and "py_getitem rd ''error'' = Inr payload"
  shows "iteration dumps tz w rl st url rd =
           (None, Raise (Exception (error_message dumps payload url)))"
  using assms by (auto simp: iteration_def)

lemma iteration_success:
  assumes "py_contains ''error'' page = Inr False"
    and "filter_page tz w page = Inr batch" and "batch \<noteq> []"
  shows "iteration dumps tz w rl st url page =
           (Some batch,
            case advance page of
              Inl e \<Rightarrow> Raise e
            | Inr next_url \<Rightarrow> Continue (st\<lparr>next_page_url := next_url\<rparr>))"
  using assms by (simp add: iteration_def)

text \<open>Retrying a URL that is already the tracked one.\<close>

lemma traverse_retries_tracked:
  assumes "\<forall>rd\<in>set errs. py_contains ''error'' rd = Inr True"
    and "c + int (length errs) \<le> rl \<or> errs = []"
  shows "traverse dumps tz w rl
           \<lparr>next_page_url = JStr url, last_error_url = Some url, last_retry_count = c\<rparr>
           (map Inr errs @ rest) =
         prepend (replicate (length errs) (Fetch url))
           (traverse dumps tz w rl
              \<lparr>next_page_url = JStr url, last_error_url = Some url,
                last_retry_count = c + int (length errs)\<rparr> rest)"
  using assms
proof (induction errs arbitrary: c)
  case Nil
  then show ?case by (simp add: prepend_def)
next
  case (Cons rd errs)
  let ?st = "\<lparr>next_page_url = JStr url, last_error_url = Some url, last_retry_count = c\<rparr>"
  from Cons.prems have lt: "c < rl" and rd: "py_contains ''error'' rd = Inr True" by auto
  have it: "iteration dumps tz w rl ?st url rd =
              (None, Continue \<lparr>next_page_url = JStr url, last_error_url = Some url,
                               last_retry_count = c + 1\<rparr>)"
    using iteration_error_again [of rd ?st url rl dumps tz w] rd lt by simp
  have IH: "traverse dumps tz w rl
           \<lparr>next_page_url = JStr url, last_error_url = Some url, last_retry_count = c + 1\<rparr>
           (map Inr errs @ rest) =
         prepend (replicate (length errs) (Fetch url))
           (traverse dumps tz w rl
              \<lparr>next_page_url = JStr url, last_error_url = Some url,
                last_retry_count = c + 1 + int (length errs)\<rparr> rest)"
    using Cons.prems by (intro Cons.IH) auto
  have step: "traverse dumps tz w rl ?st (Inr rd # (map Inr errs @ rest)) =
      prepend [Fetch url] (traverse dumps tz w rl
           \<lparr>next_page_url = JStr url, last_error_url = Some url, last_retry_count = c + 1\<rparr>
           (map Inr errs @ rest))"
    using traverse_step [of ?st url dumps tz w rl rd _ _ "map Inr errs @ rest", OF _ it]
    by (simp add: yielded_def)
  have cnt: "c + 1 + int (length errs) = c + int (length (rd # errs))" by simp
  have "traverse dumps tz w rl ?st (map Inr (rd # errs) @ rest) =
        prepend [Fetch url] (prepend (replicate (length errs) (Fetch url))
           (traverse dumps tz w rl
              \<lparr>next_page_url = JStr url, last_error_url = Some url,
                last_retry_count = c + 1 + int (length errs)\<rparr> rest))"
    using step IH by (simp del: traverse.simps)
  then show ?case
    unfolding cnt by (simp del: traverse.simps add: prepend_prepend)
qed

text \<open>Retrying a URL that is not the tracked one: the first error starts the count at 1.\<close>

lemma traverse_retries:
  assumes "next_page_url st = JStr url" and "last_error_url st \<noteq> Some url"
    and "\<forall>rd\<in>set errs. py_contains ''error'' rd = Inr True"
    and "errs \<noteq> []" and "int (length errs) \<le> max 1 rl"
  shows "traverse dumps tz w rl st (map Inr errs @ rest) =
         prepend (replicate (length errs) (Fetch url))
           (traverse dumps tz w rl
              \<lparr>next_page_url = JStr url, last_error_url = Some url,
                last_retry_count = int (length errs)\<rparr> rest)"
proof -
  from assms(4) obtain rd errs' where errs: "errs = rd # errs'" by (cases errs) auto
  have it: "iteration dumps tz w rl st url rd =
              (None, Continue \<lparr>next_page_url = JStr url, last_error_url = Some url,
                               last_retry_count = 1\<rparr>)"
    using iteration_error_fresh [of rd st url dumps tz w rl] assms(1,2,3) errs by simp
  have step: "traverse dumps tz w rl st (Inr rd # (map Inr errs' @ rest)) =
      prepend [Fetch url] (traverse dumps tz w rl
           \<lparr>next_page_url = JStr url, last_error_url = Some url, last_retry_count = 1\<rparr>
           (map Inr errs' @ rest))"
    using traverse_step [OF assms(1) it] by (simp add: yielded_def)
  have "1 + int (length errs') \<le> rl \<or> errs' = []"
    using assms(5) errs by (cases errs') (auto simp: max_def split: if_splits)
  then have tr: "traverse dumps tz w rl
           \<lparr>next_page_url = JStr url, last_error_url = Some url, last_retry_count = 1\<rparr>
           (map Inr errs' @ rest) =
         prepend (replicate (length errs') (Fetch url))
           (traverse dumps tz w rl
              \<lparr>next_page_url = JStr url, last_error_url = Some url,
                last_retry_count = 1 + int (length errs')\<rparr> rest)"
    using assms(3) errs by (intro traverse_retries_tracked) auto
  have cnt: "1 + int (length errs') = int (length errs)" using errs by simp
  have "traverse dumps tz w rl st (map Inr errs @ rest) =
        prepend [Fetch url] (prepend (replicate (length errs') (Fetch url))
           (traverse dumps tz w rl
              \<lparr>next_page_url = JStr url, last_error_url = Some url,
                last_retry_count = 1 + int (length errs')\<rparr> rest))"
    using step tr errs by (simp del: traverse.simps)
  then show ?thesis
    unfolding cnt by (simp del: traverse.simps add: prepend_prepend errs)
qed





text \<open>
  Claim C2.  A traversal has consumed the responses \<open>pre\<close> and is about to fetch \<open>url\<close>.
  If the page fetched there is not an API-level error and its filtered result is empty,
  the run is over: the events are those seen so far and the fetch of \<open>url\<close>, with no batch
  for this page, the outcome is \<open>Finished\<close>, and whatever responses \<open>rest\<close> holds, no
  further fetch and no further batch appears, also when the page names a next URL.
\<close>

theorem empty_filtered_page_ends_traversal:
  assumes "traverse dumps tz w rl st0 pre = (evs, Pending st)"
    and "next_page_url st = JStr url"
    and "py_contains ''error'' page = Inr False"
    and "filter_page tz w page = Inr []"
  shows "traverse dumps tz w rl st0 (pre @ Inr page # rest) = (evs @ [Fetch url], Finished)"
proof -
  have "traverse dumps tz w rl st (Inr page # rest) = ([Fetch url], Finished)"
    using traverse_step [OF assms(2) iteration_empty [OF assms(3,4)]]
    by (simp add: prepend_def yielded_def)
  with traverse_append [OF assms(1)] show ?thesis
    by (simp add: prepend_def)
qed

theorem empty_filtered_page_ends_traversal_witness:
  "traverse json_dumps 0
      \<lparr>start_time_cutoff_after = 1640995200, start_time_cutoff_before = None\<rparr> 3
      \<lparr>next_page_url = JStr ''u'', last_error_url = None, last_retry_count = 0\<rparr>
      [Inr linked_page]
     = ([Fetch ''u'', Yield [sample_record]],
        Pending \<lparr>next_page_url = JStr ''https://graph.facebook.com/page2'',
                  last_error_url = None, last_retry_count = 0\<rparr>)
   \<and> py_contains ''error'' empty_page = Inr False
   \<and> filter_page 0 \<lparr>start_time_cutoff_after = 1640995200, start_time_cutoff_before = None\<rparr>
         empty_page = Inr []
   \<and> traverse json_dumps 0
        \<lparr>start_time_cutoff_after = 1640995200, start_time_cutoff_before = None\<rparr> 3
        \<lparr>next_page_url = JStr ''u'', last_error_url = None, last_retry_count = 0\<rparr>
        ([Inr linked_page] @ Inr empty_page # [Inr last_page])
     = ([Fetch ''u'', Yield [sample_record]] @ [Fetch ''https://graph.facebook.com/page2''],
        Finished)"
proof -
  have h1: "traverse json_dumps 0
      \<lparr>start_time_cutoff_after = 1640995200, start_time_cutoff_before = None\<rparr> 3
      \<lparr>next_page_url = JStr ''u'', last_error_url = None, last_retry_count = 0\<rparr>
      [Inr linked_page]
     = ([Fetch ''u'', Yield [sample_record]],
        Pending \<lparr>next_page_url = JStr ''https://graph.facebook.com/page2'',
                  last_error_url = None, last_retry_count = 0\<rparr>)"
    by (simp add: eval_defs linked_page_def empty_page_def undated_record_def sample_record_def)
  have h2: "next_page_url \<lparr>next_page_url = JStr ''https://graph.facebook.com/page2'',
                  last_error_url = None, last_retry_count = 0\<rparr>
            = JStr ''https://graph.facebook.com/page2''"
    by simp
  have h3: "py_contains ''error'' empty_page = Inr False"
    by (simp add: linked_page_def empty_page_def undated_record_def sample_record_def)
  have h4: "filter_page 0
      \<lparr>start_time_cutoff_after = 1640995200, start_time_cutoff_before = None\<rparr>
      empty_page = Inr []"
    by (simp add: eval_defs linked_page_def empty_page_def undated_record_def sample_record_def)
  from empty_filtered_page_ends_traversal [OF h1 h2 h3 h4, of "[Inr last_page]"] h1 h3 h4
  show ?thesis by blast
qed

text \<open>
  Claim C4.  A record without the key \<^verbatim>\<open>ad_delivery_start_time\<close> is in no result of the
  date window filter and in no batch yielded by a traversal, whatever the window, the
  retry limit and the responses are.
\<close>

theorem undated_record_never_yielded:
  assumes "''ad_delivery_start_time'' \<notin> set (map fst kvs)"
  shows "(filter_records tz w records = Inr batch \<longrightarrow> JObj kvs \<notin> set batch) \<and>
         (Yield batch'
            \<in> set (fst (get_ad_archives_from_url dumps tz url dmin rl dmax script)) \<longrightarrow>
          JObj kvs \<notin> set batch')"
proof -
  from assms have no: "py_contains ''ad_delivery_start_time'' (JObj kvs) \<noteq> Inr True"
    by simp
  have "JObj kvs \<notin> set batch" if "filter_records tz w records = Inr batch"
    using filter_records_member [OF that] no by blast
  moreover have "JObj kvs \<notin> set batch'"
    if "Yield batch' \<in> set (fst (get_ad_archives_from_url dumps tz url dmin rl dmax script))"
  proof -
    from get_ad_archives_from_url_yields [OF that]
    obtain w' rd where "filter_page tz w' rd = Inr batch'" by blast
    from filter_page_member [OF this] no show ?thesis by blast
  qed
  ultimately show ?thesis by blast
qed

theorem undated_record_never_yielded_witness:
  "''ad_delivery_start_time'' \<notin> set (map fst [(''id'', JStr ''2'')])
   \<and> filter_records 0
        \<lparr>start_time_cutoff_after = 1640995200, start_time_cutoff_before = None\<rparr>
        [JObj [(''id'', JStr ''2'')], sample_record] = Inr [sample_record]
   \<and> Yield [sample_record]
        \<in> set (fst (get_ad_archives_from_url json_dumps 0 ''u'' ''2022-01-01'' 3 []
                      [Inr linked_page]))
   \<and> JObj [(''id'', JStr ''2'')] \<notin> set [sample_record]"
proof -
  have h: "''ad_delivery_start_time'' \<notin> set (map fst [(''id'', JStr ''2'')])"
    by simp
  have f: "filter_records 0
        \<lparr>start_time_cutoff_after = 1640995200, start_time_cutoff_before = None\<rparr>
        [JObj [(''id'', JStr ''2'')], sample_record] = Inr [sample_record]"
    by (simp add: eval_defs linked_page_def undated_record_def sample_record_def)
  have y: "Yield [sample_record]
        \<in> set (fst (get_ad_archives_from_url json_dumps 0 ''u'' ''2022-01-01'' 3 []
                      [Inr linked_page]))"
    by (simp add: eval_defs linked_page_def undated_record_def sample_record_def)
  from undated_record_never_yielded [OF h, of 0
        "\<lparr>start_time_cutoff_after = 1640995200, start_time_cutoff_before = None\<rparr>"
        "[JObj [(''id'', JStr ''2'')], sample_record]" "[sample_record]" "[sample_record]"
        json_dumps "''u''" "''2022-01-01''" 3 "[]" "[Inr linked_page]"] h f y
  show ?thesis by blast
qed

lemma traverse_fetches_first:
  assumes "next_page_url st = JStr url"
  shows "\<exists>evs out. traverse dumps tz w rl st (r # rest) = (Fetch url # evs, out)"
proof (cases r)
  case (Inl e)
  with assms show ?thesis by simp
next
  case (Inr rd)
  obtain y ctl where "iteration dumps tz w rl st url rd = (y, ctl)"
    by (cases "iteration dumps tz w rl st url rd")
  with assms Inr show ?thesis by (simp add: prepend_def)
qed

text \<open>
  Claim C6.  The loop is at URL \<open>url_b\<close>, the URL that errored last is another one (or
  none), and the response is an API-level error.  Whatever the retry count was, the
  iteration yields nothing and goes on with \<open>url_b\<close> as the errored URL, the count 1 and
  the cursor still \<open>url_b\<close>; the next fetch, if the run goes on, is of \<open>url_b\<close> again.
\<close>

theorem error_on_other_url_resets_retry_tracking:
  assumes "next_page_url st = JStr url_b"
    and "last_error_url st \<noteq> Some url_b"
    and "py_contains ''error'' rd = Inr True"
  shows "iteration dumps tz w rl st url_b rd =
           (None, Continue \<lparr>next_page_url = JStr url_b, last_error_url = Some url_b,
                             last_retry_count = 1\<rparr>)
       \<and> traverse dumps tz w rl st (Inr rd # rest) =
           prepend [Fetch url_b]
             (traverse dumps tz w rl
                \<lparr>next_page_url = JStr url_b, last_error_url = Some url_b,
                  last_retry_count = 1\<rparr> rest)
       \<and> (\<exists>evs out. traverse dumps tz w rl st (Inr rd # r # rest) =
                       (Fetch url_b # Fetch url_b # evs, out))"
proof -
  let ?st' = "\<lparr>next_page_url = JStr url_b, last_error_url = Some url_b,
                last_retry_count = 1\<rparr>"
  have it: "iteration dumps tz w rl st url_b rd = (None, Continue ?st')"
    using iteration_error_fresh [OF assms(3,2), of dumps tz w rl] assms(1) by simp
  have tr: "traverse dumps tz w rl st (Inr rd # xs) =
              prepend [Fetch url_b] (traverse dumps tz w rl ?st' xs)" for xs
    using traverse_step [OF assms(1) it] by (simp add: yielded_def)
  obtain evs out where "traverse dumps tz w rl ?st' (r # rest) = (Fetch url_b # evs, out)"
    using traverse_fetches_first [of ?st' url_b dumps tz w rl r rest] by auto
  then have "traverse dumps tz w rl st (Inr rd # r # rest) = (Fetch url_b # Fetch url_b # evs, out)"
    using tr [of "r # rest"] by (simp add: prepend_def)
  with it tr show ?thesis by blast
qed

theorem error_on_other_url_resets_retry_tracking_witness:
  "next_page_url \<lparr>next_page_url = JStr ''b'', last_error_url = Some ''a'',
                   last_retry_count = 3\<rparr> = JStr ''b''
   \<and> last_error_url \<lparr>next_page_url = JStr ''b'', last_error_url = Some ''a'',
                      last_retry_count = 3\<rparr> \<noteq> Some ''b''
   \<and> py_contains ''error'' error_page = Inr True
   \<and> iteration json_dumps 0
        \<lparr>start_time_cutoff_after = 1640995200, start_time_cutoff_before = None\<rparr> 3
        \<lparr>next_page_url = JStr ''b'', last_error_url = Some ''a'', last_retry_count = 3\<rparr>
        ''b'' error_page =
        (None, Continue \<lparr>next_page_url = JStr ''b'', last_error_url = Some ''b'',
                          last_retry_count = 1\<rparr>)"
proof -
  have h1: "next_page_url \<lparr>next_page_url = JStr ''b'', last_error_url = Some ''a'',
                   last_retry_count = 3\<rparr> = JStr ''b''" by simp
  have h2: "last_error_url \<lparr>next_page_url = JStr ''b'', last_error_url = Some ''a'',
                      last_retry_count = 3\<rparr> \<noteq> Some ''b''" by simp
  have h3: "py_contains ''error'' error_page = Inr True" by (simp add: error_page_def)
  from error_on_other_url_resets_retry_tracking [OF h1 h2 h3, of json_dumps 0
      "\<lparr>start_time_cutoff_after = 1640995200, start_time_cutoff_before = None\<rparr>" 3] h1 h2 h3
  show ?thesis by blast
qed

subsection \<open>Retries (claim C1)\<close>

text \<open>
  Claim C1 as stated fails.  With the retry limit 3, the URL \<^verbatim>\<open>u\<close> answers with an API-level
  error on three consecutive iterations; the claim has the traversal raise there.  The
  loop fetches \<^verbatim>\<open>u\<close> a fourth time instead, and as that fetch succeeds the batch is
  yielded and the run finishes: the comparison at line 100 is made before the count is
  incremented, so the count that is compared is the number of errors seen before this one.
\<close>

theorem three_errors_then_success_is_no_failure:
  "get_ad_archives_from_url json_dumps 0 ''u'' ''2022-01-01'' 3 []
     [Inr error_page, Inr error_page, Inr error_page, Inr last_page]
   = ([Fetch ''u'', Fetch ''u'', Fetch ''u'', Fetch ''u'', Yield [sample_record]], Finished)"
  by (simp add: eval_defs error_page_def last_page_def sample_record_def)

text \<open>
  Claim C1, amended.  The loop is at \<open>url\<close>, which is not the URL on record as the last
  one that errored, and the next responses \<open>errs\<close>, at least one and at most \<open>retry_limit\<close>
  of them, are API-level errors.  Each of them is followed by a fetch of the same URL.
  \<^item> If there are \<open>retry_limit\<close> of them and the next response is an API-level error too,
    that is on the error number \<open>retry_limit + 1\<close>, the traversal raises, with no batch
    yielded; the message holds the serialized payload of this last error and the URL.
  \<^item> If the next response is a page with a non-empty filtered batch, the batch is yielded
    and the traversal goes on from the page's next cursor: no error is raised for the
    retries.
\<close>

theorem retry_limit_plus_one_errors_fail:
  assumes "next_page_url st = JStr url"
    and "last_error_url st \<noteq> Some url"
    and "\<forall>rd\<in>set errs. py_contains ''error'' rd = Inr True"
    and "errs \<noteq> []"
    and "int (length errs) \<le> rl"
  shows "(int (length errs) = rl \<longrightarrow>
          py_contains ''error'' rd = Inr True \<longrightarrow> py_getitem rd ''error'' = Inr payload \<longrightarrow>
          traverse dumps tz w rl st (map Inr errs @ Inr rd # rest) =
            (replicate (length errs + 1) (Fetch url),
             Raised (Exception (''Error message: ['' @ dumps payload
                                 @ ''], failed on URL: ['' @ url @ '']''))))
       \<and> (py_contains ''error'' page = Inr False \<longrightarrow> filter_page tz w page = Inr batch \<longrightarrow>
          batch \<noteq> [] \<longrightarrow> advance page = Inr next_url \<longrightarrow>
          traverse dumps tz w rl st (map Inr errs @ Inr page # rest) =
            prepend (replicate (length errs) (Fetch url) @ [Fetch url, Yield batch])
              (traverse dumps tz w rl
                 \<lparr>next_page_url = next_url, last_error_url = Some url,
                   last_retry_count = int (length errs)\<rparr> rest))"
proof (intro conjI impI)
  let ?st = "\<lparr>next_page_url = JStr url, last_error_url = Some url,
               last_retry_count = int (length errs)\<rparr>"
  have retries: "traverse dumps tz w rl st (map Inr errs @ xs) =
      prepend (replicate (length errs) (Fetch url)) (traverse dumps tz w rl ?st xs)" for xs
    using traverse_retries [OF assms(1-4)] assms(5) by simp
  {
    assume full: "int (length errs) = rl"
      and e: "py_contains ''error'' rd = Inr True"
      and p: "py_getitem rd ''error'' = Inr payload"
    from full have "rl \<le> last_retry_count ?st" by simp
    then have "iteration dumps tz w rl ?st url rd =
                 (None, Raise (Exception (error_message dumps payload url)))"
      using iteration_error_limit [of rd ?st url rl payload dumps tz w] e p by simp
    then have "traverse dumps tz w rl ?st (Inr rd # rest) =
                 ([Fetch url], Raised (Exception (error_message dumps payload url)))"
      using traverse_step [of ?st url dumps tz w rl rd] by (simp add: yielded_def prepend_def)
    with retries [of "Inr rd # rest"]
    show "traverse dumps tz w rl st (map Inr errs @ Inr rd # rest) =
            (replicate (length errs + 1) (Fetch url),
             Raised (Exception (''Error message: ['' @ dumps payload
                                 @ ''], failed on URL: ['' @ url @ '']'')))"
      by (simp add: prepend_def error_message_def replicate_append_same)
  }
  {
    assume ok: "py_contains ''error'' page = Inr False"
      and f: "filter_page tz w page = Inr batch" and ne: "batch \<noteq> []"
      and adv: "advance page = Inr next_url"
    have "iteration dumps tz w rl ?st url page =
            (Some batch, Continue (?st\<lparr>next_page_url := next_url\<rparr>))"
      using iteration_success [OF ok f ne, of dumps rl ?st url] adv by simp
    then have "traverse dumps tz w rl ?st (Inr page # rest) =
        prepend [Fetch url, Yield batch]
          (traverse dumps tz w rl
             \<lparr>next_page_url = next_url, last_error_url = Some url,
               last_retry_count = int (length errs)\<rparr> rest)"
      using traverse_step [of ?st url dumps tz w rl page] by (simp add: yielded_def)
    with retries [of "Inr page # rest"]
    show "traverse dumps tz w rl st (map Inr errs @ Inr page # rest) =
            prepend (replicate (length errs) (Fetch url) @ [Fetch url, Yield batch])
              (traverse dumps tz w rl
                 \<lparr>next_page_url = next_url, last_error_url = Some url,
                   last_retry_count = int (length errs)\<rparr> rest)"
      by (simp del: traverse.simps add: prepend_prepend)
  }
qed

theorem retry_limit_plus_one_errors_fail_witness:
  "next_page_url \<lparr>next_page_url = JStr ''u'', last_error_url = None, last_retry_count = 0\<rparr>
     = JStr ''u''
   \<and> last_error_url \<lparr>next_page_url = JStr ''u'', last_error_url = None, last_retry_count = 0\<rparr>
     \<noteq> Some ''u''
   \<and> py_contains ''error'' error_page = Inr True
   \<and> [error_page, error_page, error_page] \<noteq> []
   \<and> int (length [error_page, error_page, error_page]) = 3
   \<and> py_getitem error_page ''error'' = Inr (JObj [(''code'', JNum 190)])
   \<and> traverse json_dumps 0
        \<lparr>start_time_cutoff_after = 1640995200, start_time_cutoff_before = None\<rparr> 3
        \<lparr>next_page_url = JStr ''u'', last_error_url = None, last_retry_count = 0\<rparr>
        (map Inr [error_page, error_page, error_page] @ Inr error_page # [Inr last_page])
      = (replicate (length [error_page, error_page, error_page] + 1) (Fetch ''u''),
         Raised (Exception (''Error message: ['' @ json_dumps (JObj [(''code'', JNum 190)])
                             @ ''], failed on URL: ['' @ ''u'' @ '']'')))
   \<and> py_contains ''error'' last_page = Inr False
   \<and> filter_page 0
        \<lparr>start_time_cutoff_after = 1640995200, start_time_cutoff_before = None\<rparr>
        last_page = Inr [sample_record]
   \<and> advance last_page = Inr JNull
   \<and> traverse json_dumps 0
        \<lparr>start_time_cutoff_after = 1640995200, start_time_cutoff_before = None\<rparr> 3
        \<lparr>next_page_url = JStr ''u'', last_error_url = None, last_retry_count = 0\<rparr>
        (map Inr [error_page, error_page, error_page] @ Inr last_page # [])
      = (replicate (length [error_page, error_page, error_page]) (Fetch ''u'')
           @ [Fetch ''u'', Yield [sample_record]],
         Finished)"
proof -
  let ?st = "\<lparr>next_page_url = JStr ''u'', last_error_url = None, last_retry_count = 0\<rparr>"
  let ?w = "\<lparr>start_time_cutoff_after = 1640995200, start_time_cutoff_before = None\<rparr>"
  let ?errs = "[error_page, error_page, error_page]"
  have h1: "next_page_url ?st = JStr ''u''" by simp
  have h2: "last_error_url ?st \<noteq> Some ''u''" by simp
  have h3: "\<forall>rd\<in>set ?errs. py_contains ''error'' rd = Inr True" by (simp add: error_page_def last_page_def sample_record_def)
  have h4: "?errs \<noteq> []" by simp
  have h5: "int (length ?errs) \<le> 3" by simp
  have h6: "int (length ?errs) = 3" by simp
  have e1: "py_contains ''error'' error_page = Inr True" by (simp add: error_page_def last_page_def sample_record_def)
  have e2: "py_getitem error_page ''error'' = Inr (JObj [(''code'', JNum 190)])"
    by (simp add: error_page_def last_page_def sample_record_def)
  have p1: "py_contains ''error'' last_page = Inr False" by (simp add: error_page_def last_page_def sample_record_def)
  have p2: "filter_page 0 ?w last_page = Inr [sample_record]"
    by (simp add: eval_defs error_page_def last_page_def sample_record_def)
  have p3: "[sample_record] \<noteq> []" by simp
  have p4: "advance last_page = Inr JNull" by (simp add: eval_defs error_page_def last_page_def sample_record_def)
  note inst = retry_limit_plus_one_errors_fail [OF h1 h2 h3 h4 h5,
      where rd = error_page and payload = "JObj [(''code'', JNum 190)]"
        and dumps = json_dumps and tz = 0 and w = ?w and page = last_page
        and batch = "[sample_record]" and next_url = JNull]
  from inst [where rest = "[Inr last_page]"] h6 e1 e2
  have a: "traverse json_dumps 0 ?w 3 ?st (map Inr ?errs @ Inr error_page # [Inr last_page])
      = (replicate (length ?errs + 1) (Fetch ''u''),
         Raised (Exception (''Error message: ['' @ json_dumps (JObj [(''code'', JNum 190)])
                             @ ''], failed on URL: ['' @ ''u'' @ '']'')))"
    by blast
  from inst [where rest = "[]"] p1 p2 p3 p4
  have "traverse json_dumps 0 ?w 3 ?st (map Inr ?errs @ Inr last_page # [])
      = prepend (replicate (length ?errs) (Fetch ''u'') @ [Fetch ''u'', Yield [sample_record]])
          (traverse json_dumps 0 ?w 3
             \<lparr>next_page_url = JNull, last_error_url = Some ''u'',
               last_retry_count = int (length ?errs)\<rparr> [])"
    by blast
  then have b: "traverse json_dumps 0 ?w 3 ?st (map Inr ?errs @ Inr last_page # [])
      = (replicate (length ?errs) (Fetch ''u'') @ [Fetch ''u'', Yield [sample_record]],
         Finished)"
    by (simp only: traverse.simps traversal_state.simps json.case prepend_def fst_conv snd_conv
          append_Nil2)
  from h1 h2 e1 h4 h6 e2 a p1 p2 p4 b show ?thesis
    by (intro conjI)
qed

subsection \<open>Restart (claim C7)\<close>

text \<open>
  Claim C7 as stated fails.  A traversal with minimum date 2022-01-01, no upper bound and
  the retry limit 3 has seen three errors on \<^verbatim>\<open>u\<close>: its cursor is \<^verbatim>\<open>u\<close>, with \<^verbatim>\<open>u\<close> on
  record and the count 3.  On the responses error, page it fetches once and raises, so
  it yields no batch.  The restart entry point called with \<^verbatim>\<open>u\<close> and the same minimum
  date starts with nothing on record: on the same two responses it fetches twice and
  yields the page's batch.
\<close>

theorem restart_after_exhausted_retries_differs:
  "get_ad_archives_from_url json_dumps 0 ''u'' ''2022-01-01'' 3 []
     [Inr error_page, Inr error_page, Inr error_page]
   = ([Fetch ''u'', Fetch ''u'', Fetch ''u''],
      Pending \<lparr>next_page_url = JStr ''u'', last_error_url = Some ''u'',
                last_retry_count = 3\<rparr>)
   \<and> get_ad_archives_from_url json_dumps 0 ''u'' ''2022-01-01'' 3 []
        ([Inr error_page, Inr error_page, Inr error_page] @ [Inr error_page, Inr last_page])
     = ([Fetch ''u'', Fetch ''u'', Fetch ''u''] @ [Fetch ''u''],
        Raised (Exception (error_message json_dumps (JObj [(''code'', JNum 190)]) ''u'')))
   \<and> generate_ad_archives_from_url json_dumps 0 ''u'' ''2022-01-01''
        [Inr error_page, Inr last_page]
     = ([Fetch ''u'', Fetch ''u'', Yield [sample_record]], Finished)"
  by (simp add: eval_defs error_page_def last_page_def sample_record_def)

lemma get_ad_archives_from_url_no_max:
  "get_ad_archives_from_url dumps tz url dmin rl [] script =
     (case strptime_timestamp tz (JStr dmin) of
        Inl e \<Rightarrow> ([], Raised e)
      | Inr t \<Rightarrow>
          traverse dumps tz \<lparr>start_time_cutoff_after = t, start_time_cutoff_before = None\<rparr> rl
            \<lparr>next_page_url = JStr url, last_error_url = None, last_retry_count = 0\<rparr> script)"
  by (simp add: get_ad_archives_from_url_def split: sum.splits)

text \<open>
  Claim C7, amended.  The restart entry point takes a cursor URL and a minimum date only;
  it is the traversal from that URL with no upper bound and the retry limit 3 of line 83,
  with no errored URL on record.  It produces what an in-progress traversal with the same
  minimum date, no upper bound and the retry limit 3 produces from the moment it is about
  to fetch that URL, provided that traversal has no errored URL on record then: the
  events of the in-progress run on \<open>pre @ rest\<close> are those it produced on \<open>pre\<close> followed
  by those of the restart on \<open>rest\<close>, with the same outcome.
\<close>

theorem restart_continues_clean_traversal:
  assumes "get_ad_archives_from_url dumps tz seed dmin 3 [] pre =
             (evs, Pending \<lparr>next_page_url = JStr url, last_error_url = None,
                            last_retry_count = 0\<rparr>)"
  shows "generate_ad_archives_from_url dumps tz url dmin rest =
           get_ad_archives_from_url dumps tz url dmin 3 [] rest
       \<and> get_ad_archives_from_url dumps tz seed dmin 3 [] (pre @ rest) =
           prepend evs (generate_ad_archives_from_url dumps tz url dmin rest)"
proof (cases "strptime_timestamp tz (JStr dmin)")
  case (Inl e)
  with assms show ?thesis by (simp add: get_ad_archives_from_url_no_max)
next
  case (Inr t)
  let ?w = "\<lparr>start_time_cutoff_after = t, start_time_cutoff_before = None\<rparr>"
  from assms Inr have "traverse dumps tz ?w 3
      \<lparr>next_page_url = JStr seed, last_error_url = None, last_retry_count = 0\<rparr> pre =
      (evs, Pending \<lparr>next_page_url = JStr url, last_error_url = None, last_retry_count = 0\<rparr>)"
    by (simp add: get_ad_archives_from_url_no_max)
  from traverse_append [OF this, of rest] Inr show ?thesis
    by (simp add: get_ad_archives_from_url_no_max generate_ad_archives_from_url_def)
qed

theorem restart_continues_clean_traversal_witness:
  "get_ad_archives_from_url json_dumps 0 ''u'' ''2022-01-01'' 3 [] [Inr linked_page] =
     ([Fetch ''u'', Yield [sample_record]],
      Pending \<lparr>next_page_url = JStr ''https://graph.facebook.com/page2'',
                last_error_url = None, last_retry_count = 0\<rparr>)
   \<and> get_ad_archives_from_url json_dumps 0 ''u'' ''2022-01-01'' 3 []
        ([Inr linked_page] @ [Inr error_page, Inr last_page]) =
      prepend [Fetch ''u'', Yield [sample_record]]
        (generate_ad_archives_from_url json_dumps 0 ''https://graph.facebook.com/page2''
           ''2022-01-01'' [Inr error_page, Inr last_page])
   \<and> generate_ad_archives_from_url json_dumps 0 ''https://graph.facebook.com/page2''
        ''2022-01-01'' [Inr error_page, Inr last_page] =
      ([Fetch ''https://graph.facebook.com/page2'', Fetch ''https://graph.facebook.com/page2'',
        Yield [sample_record]], Finished)"
proof -
  have h: "get_ad_archives_from_url json_dumps 0 ''u'' ''2022-01-01'' 3 [] [Inr linked_page] =
     ([Fetch ''u'', Yield [sample_record]],
      Pending \<lparr>next_page_url = JStr ''https://graph.facebook.com/page2'',
                last_error_url = None, last_retry_count = 0\<rparr>)"
    by (simp add: eval_defs linked_page_def undated_record_def sample_record_def error_page_def last_page_def)
  have r: "generate_ad_archives_from_url json_dumps 0 ''https://graph.facebook.com/page2''
        ''2022-01-01'' [Inr error_page, Inr last_page] =
      ([Fetch ''https://graph.facebook.com/page2'', Fetch ''https://graph.facebook.com/page2'',
        Yield [sample_record]], Finished)"
    by (simp add: eval_defs linked_page_def undated_record_def sample_record_def error_page_def last_page_def)
  from restart_continues_clean_traversal [OF h, of "[Inr error_page, Inr last_page]"] h r
  show ?thesis by blast
qed

subsection \<open>Unparseable dates (claim C10)\<close>

text \<open>How the lambdas of lines 115 and 129 treat a record that is a mapping.\<close>

lemma date_test_JObj:
  "date_test tz cmp (JObj kvs) =
     (case map_of kvs ''ad_delivery_start_time'' of
        None \<Rightarrow> Inr False
      | Some v \<Rightarrow>
          (case strptime_timestamp tz v of Inl e \<Rightarrow> Inl e | Inr t \<Rightarrow> Inr (cmp t)))"
proof (cases "map_of kvs ''ad_delivery_start_time''")
  case None
  then have "''ad_delivery_start_time'' \<notin> fst ` set kvs"
    by (simp add: map_of_eq_None_iff)
  with None show ?thesis by (simp add: date_test_def)
next
  case (Some v)
  then have "''ad_delivery_start_time'' \<in> fst ` set kvs"
    by (metis map_of_eq_None_iff option.distinct(1))
  with Some show ?thesis by (simp add: date_test_def)
qed

lemma py_filter_unparseable:
  assumes "\<forall>r\<in>set records. \<exists>kvs. r = JObj kvs"
    and "JObj kvs \<in> set records"
    and "map_of kvs ''ad_delivery_start_time'' = Some v"
    and "strptime_timestamp tz v = Inl e0"
  shows "\<exists>e kvs' v'. JObj kvs' \<in> set records
           \<and> map_of kvs' ''ad_delivery_start_time'' = Some v'
           \<and> strptime_timestamp tz v' = Inl e
           \<and> py_filter (date_test tz cmp) records = Inl e"
  using assms(1,2)
proof (induction records)
  case Nil
  then show ?case by simp
next
  case (Cons r records)
  from Cons.prems(1) obtain kvs_r where r: "r = JObj kvs_r" by auto
  show ?case
  proof (cases "date_test tz cmp r")
    case (Inl e)
    with r obtain v' where "map_of kvs_r ''ad_delivery_start_time'' = Some v'"
      and "strptime_timestamp tz v' = Inl e"
      by (auto simp: date_test_JObj split: option.splits sum.splits)
    with Inl r show ?thesis by auto
  next
    case (Inr b)
    have "r \<noteq> JObj kvs"
    proof
      assume "r = JObj kvs"
      with assms(3,4) have "date_test tz cmp r = Inl e0" by (simp add: date_test_JObj)
      with Inr show False by simp
    qed
    with Cons.prems have "\<forall>r\<in>set records. \<exists>kvs. r = JObj kvs" and "JObj kvs \<in> set records"
      by auto
    from Cons.IH [OF this] obtain e kvs' v' where "JObj kvs' \<in> set records"
      and "map_of kvs' ''ad_delivery_start_time'' = Some v'"
      and "strptime_timestamp tz v' = Inl e"
      and "py_filter (date_test tz cmp) records = Inl e"
      by blast
    with Inr show ?thesis by auto
  qed
qed

text \<open>
  Claim C10.  The loop is at \<open>url\<close> and the page fetched there is not an API-level error; its
  \<^verbatim>\<open>data\<close> is a list of mappings, one of which has an \<^verbatim>\<open>ad_delivery_start_time\<close> on which
  the conversion \<^verbatim>\<open>datetime.strptime(...).timestamp()\<close> raises.  Then the filter raises the
  error this conversion raises on such a record of the page (the first one in the list),
  and the traversal ends with that error right after the fetch: the record is not skipped
  and no batch is yielded for the page.
\<close>

theorem unparseable_date_raises:
  assumes "next_page_url st = JStr url"
    and "py_contains ''error'' page = Inr False"
    and "py_getitem page ''data'' = Inr (JArr records)"
    and "\<forall>r\<in>set records. \<exists>kvs. r = JObj kvs"
    and "JObj kvs \<in> set records"
    and "map_of kvs ''ad_delivery_start_time'' = Some v"
    and "strptime_timestamp tz v = Inl e0"
  shows "\<exists>e kvs' v'. JObj kvs' \<in> set records
           \<and> map_of kvs' ''ad_delivery_start_time'' = Some v'
           \<and> strptime_timestamp tz v' = Inl e
           \<and> filter_page tz w page = Inl e
           \<and> traverse dumps tz w rl st (Inr page # rest) = ([Fetch url], Raised e)"
proof -
  have "\<exists>e kvs' v'. JObj kvs' \<in> set records
           \<and> map_of kvs' ''ad_delivery_start_time'' = Some v'
           \<and> strptime_timestamp tz v' = Inl e
           \<and> filter_records tz w records = Inl e"
    using py_filter_unparseable [OF assms(4-7)] by (simp add: filter_records_def)
  then obtain e kvs' v' where rec: "JObj kvs' \<in> set records"
      "map_of kvs' ''ad_delivery_start_time'' = Some v'" "strptime_timestamp tz v' = Inl e"
    and fr: "filter_records tz w records = Inl e"
    by blast
  from fr assms(3) have fp: "filter_page tz w page = Inl e"
    by (simp add: filter_page_def)
  with assms(2) have "iteration dumps tz w rl st url page = (None, Raise e)"
    by (simp add: iteration_def)
  from traverse_step [OF assms(1) this]
  have "traverse dumps tz w rl st (Inr page # rest) = ([Fetch url], Raised e)"
    by (simp add: prepend_def yielded_def)
  with rec fp show ?thesis by blast
qed

theorem unparseable_date_raises_witness:
  "next_page_url \<lparr>next_page_url = JStr ''u'', last_error_url = None, last_retry_count = 0\<rparr>
     = JStr ''u''
   \<and> py_contains ''error'' misdated_page = Inr False
   \<and> py_getitem misdated_page ''data''
       = Inr (JArr [sample_record, JObj [(''ad_delivery_start_time'', JStr ''2022-02-30'')]])
   \<and> sample_record
       = JObj [(''id'', JStr ''1''), (''ad_delivery_start_time'', JStr ''2022-01-05'')]
   \<and> map_of [(''ad_delivery_start_time'', JStr ''2022-02-30'')] ''ad_delivery_start_time''
       = Some (JStr ''2022-02-30'')
   \<and> strptime_timestamp 0 (JStr ''2022-02-30'') = Inl ValueError
   \<and> filter_page 0
        \<lparr>start_time_cutoff_after = 1640995200, start_time_cutoff_before = None\<rparr>
        misdated_page = Inl ValueError
   \<and> traverse json_dumps 0
        \<lparr>start_time_cutoff_after = 1640995200, start_time_cutoff_before = None\<rparr> 3
        \<lparr>next_page_url = JStr ''u'', last_error_url = None, last_retry_count = 0\<rparr>
        (Inr misdated_page # [Inr last_page])
       = ([Fetch ''u''], Raised ValueError)"
proof -
  let ?st = "\<lparr>next_page_url = JStr ''u'', last_error_url = None, last_retry_count = 0\<rparr>"
  let ?w = "\<lparr>start_time_cutoff_after = 1640995200, start_time_cutoff_before = None\<rparr>"
  let ?bad = "[(''ad_delivery_start_time'', JStr ''2022-02-30'')]"
  let ?records = "[sample_record, JObj ?bad]"
  have h1: "next_page_url ?st = JStr ''u''" by simp
  have h2: "py_contains ''error'' misdated_page = Inr False" by (simp add: misdated_page_def sample_record_def)
  have h3: "py_getitem misdated_page ''data'' = Inr (JArr ?records)" by (simp add: misdated_page_def sample_record_def)
  have h4: "\<forall>r\<in>set ?records. \<exists>kvs. r = JObj kvs" by (simp add: misdated_page_def sample_record_def)
  have h5: "JObj ?bad \<in> set ?records" by simp
  have h6: "map_of ?bad ''ad_delivery_start_time'' = Some (JStr ''2022-02-30'')" by simp
  have h7: "strptime_timestamp 0 (JStr ''2022-02-30'') = Inl ValueError"
    by (simp add: eval_defs)
  have s: "sample_record
       = JObj [(''id'', JStr ''1''), (''ad_delivery_start_time'', JStr ''2022-01-05'')]"
    by (simp add: misdated_page_def sample_record_def)
  have f: "filter_page 0 ?w misdated_page = Inl ValueError"
    by (simp add: eval_defs misdated_page_def sample_record_def)
  from unparseable_date_raises [OF h1 h2 h3 h4 h5 h6 h7, of ?w json_dumps 3 "[Inr last_page]"]
  obtain e where "filter_page 0 ?w misdated_page = Inl e"
    and "traverse json_dumps 0 ?w 3 ?st (Inr misdated_page # [Inr last_page])
           = ([Fetch ''u''], Raised e)"
    by blast
  with f have "traverse json_dumps 0 ?w 3 ?st (Inr misdated_page # [Inr last_page])
           = ([Fetch ''u''], Raised ValueError)"
    by simp
  with h1 h2 h3 s h6 h7 f show ?thesis
    by (intro conjI)
qed

subsection \<open>The window test (claim C3)\<close>

text \<open>
  What the filter does when every record of the page is a mapping with a parseable date:
  nothing is raised, and a record is kept exactly when its timestamp \<open>t\<close> satisfies
  \<open>hi \<ge> t \<ge> lo\<close>, or \<open>t \<ge> lo\<close> when there is no upper bound.  This needs the upper bound's
  timestamp \<open>hi\<close> to be other than 0.  The second lemma is the example of the
  specification, in any time zone.
\<close>

lemma py_filter_total:
  assumes "\<forall>r\<in>set records. \<exists>b. f r = Inr b"
  shows "py_filter f records = Inr (filter (\<lambda>r. f r = Inr True) records)"
  using assms
proof (induction records)
  case Nil
  then show ?case by simp
next
  case (Cons r records)
  then obtain b where "f r = Inr b" by auto
  with Cons show ?case by auto
qed

lemma filter_records_window:
  assumes "\<forall>r\<in>set records. \<exists>kvs v t. r = JObj kvs
              \<and> map_of kvs ''ad_delivery_start_time'' = Some v
              \<and> strptime_timestamp tz v = Inr t"
    and "start_time_cutoff_after w = lo"
    and "start_time_cutoff_before w = Some hi \<and> hi \<noteq> 0 \<or> start_time_cutoff_before w = None"
  shows "\<exists>batch. filter_records tz w records = Inr batch \<and>
           (\<forall>kvs v t. JObj kvs \<in> set records \<longrightarrow>
               map_of kvs ''ad_delivery_start_time'' = Some v \<longrightarrow>
               strptime_timestamp tz v = Inr t \<longrightarrow>
               (JObj kvs \<in> set batch \<longleftrightarrow>
                  (case start_time_cutoff_before w of
                     Some hi \<Rightarrow> hi \<ge> t \<and> t \<ge> lo
                   | None \<Rightarrow> t \<ge> lo)))"
proof -
  have total: "\<forall>r\<in>set records. \<exists>b. date_test tz cmp r = Inr b" for cmp
    using assms(1) by (auto simp: date_test_JObj)
  show ?thesis
  proof (cases "start_time_cutoff_before w")
    case None
    then have "filter_records tz w records =
        Inr (filter (\<lambda>r. date_test tz (\<lambda>t. t \<ge> lo) r = Inr True) records)"
      using py_filter_total [OF total] assms(2) by (simp add: filter_records_def truthy_def)
    with None show ?thesis by (auto simp: date_test_JObj)
  next
    case (Some hi)
    with assms(3) have "hi \<noteq> 0" by auto
    with Some have "filter_records tz w records =
        Inr (filter (\<lambda>r. date_test tz (\<lambda>t. hi \<ge> t \<and> t \<ge> lo) r = Inr True) records)"
      using py_filter_total [OF total] assms(2) by (simp add: filter_records_def truthy_def)
    with Some show ?thesis by (auto simp: date_test_JObj)
  qed
qed

lemma january_window_example:
  assumes "\<bar>tz\<bar> < 86400"
  shows "get_ad_archives_from_url dumps tz ''u'' ''2022-01-01'' 3 ''2022-01-31''
           [Inr (JObj [(''data'',
              JArr [JObj [(''ad_delivery_start_time'', JStr ''2022-02-01'')],
                    JObj [(''ad_delivery_start_time'', JStr ''2022-01-31'')]])])]
         = ([Fetch ''u'', Yield [JObj [(''ad_delivery_start_time'', JStr ''2022-01-31'')]]],
            Finished)"
  using assms by (simp add: eval_defs)

text \<open>
  Claim C3 fails at one upper bound.  In a process whose time zone is UTC, the upper bound
  1970-01-01 has the timestamp 0, which line 112 takes for false, as it does the empty
  string of an absent bound: the filter without an upper bound runs.  With the minimum
  and the maximum date both 1970-01-01, the record dated 2022-01-05, which is later
  than the upper bound, is kept and yielded.
\<close>

theorem upper_bound_at_epoch_is_ignored:
  "strptime_timestamp 0 (JStr ''1970-01-01'') = Inr 0
   \<and> strptime_timestamp 0 (JStr ''2022-01-05'') = Inr 1641340800
   \<and> filter_records 0 \<lparr>start_time_cutoff_after = 0, start_time_cutoff_before = Some 0\<rparr>
        [sample_record] = Inr [sample_record]
   \<and> get_ad_archives_from_url json_dumps 0 ''u'' ''1970-01-01'' 3 ''1970-01-01''
        [Inr last_page]
       = ([Fetch ''u'', Yield [sample_record]], Finished)"
  by (simp add: eval_defs last_page_def sample_record_def)

subsection \<open>Advancing the cursor (claim C5)\<close>

text \<open>
  Lines 146-149 on a page that is a mapping: the next URL when \<^verbatim>\<open>paging\<close> has one, the
  terminal cursor when the page has no \<^verbatim>\<open>paging\<close>, and \<^verbatim>\<open>KeyError\<close> when \<^verbatim>\<open>paging\<close> is there
  without a \<^verbatim>\<open>next\<close>.
\<close>

lemma advance_next:
  assumes "map_of kvs ''paging'' = Some (JObj paging)"
    and "map_of paging ''next'' = Some next_url"
  shows "advance (JObj kvs) = Inr next_url"
proof -
  from assms(1) have "''paging'' \<in> fst ` set kvs"
    by (metis map_of_eq_None_iff option.distinct(1))
  with assms show ?thesis by (simp add: advance_def)
qed

lemma advance_no_paging:
  assumes "map_of kvs ''paging'' = None"
  shows "advance (JObj kvs) = Inr JNull"
proof -
  from assms have "''paging'' \<notin> fst ` set kvs"
    by (simp add: map_of_eq_None_iff)
  then show ?thesis by (simp add: advance_def)
qed

lemma advance_paging_without_next:
  assumes "map_of kvs ''paging'' = Some (JObj paging)"
    and "map_of paging ''next'' = None"
  shows "advance (JObj kvs) = Inl (KeyError ''next'')"
proof -
  from assms(1) have "''paging'' \<in> fst ` set kvs"
    by (metis map_of_eq_None_iff option.distinct(1))
  with assms show ?thesis by (simp add: advance_def)
qed

text \<open>
  Claim C5 fails on a page whose \<^verbatim>\<open>paging\<close> has cursors and no \<^verbatim>\<open>next\<close>: the batch is
  yielded, and when the generator is resumed line 147 raises \<^verbatim>\<open>KeyError\<close> instead of
  ending the sequence.
\<close>

theorem paging_without_next_raises:
  "get_ad_archives_from_url json_dumps 0 ''u'' ''2022-01-01'' 3 [] [Inr cursors_only_page]
     = ([Fetch ''u'', Yield [sample_record]], Raised (KeyError ''next''))"
  by (simp add: eval_defs cursors_only_page_def sample_record_def)

end
